theory Spec2Isabelle
  imports Main
begin

section \<open>Package views: read-only accessors over slices and maps\<close>

text \<open>
  The Go package \<open>views\<close> wraps a slice or a map in a struct whose only data field,
  written with the Cyrillic letter zhe in the source, is the backing value. The field is
  named \<open>zh\<close> here, prefixed with the struct's name since the structs share it, and a
  method \<open>T.M\<close> of the source is the constant \<open>T_M\<close>.

  The operations that only read a slice are modelled on slice values. A Go slice is
  either nil or a sequence of elements, and the two are told apart by \<open>== nil\<close>, so a
  slice value is an optional list: \<open>None\<close> is the nil slice and \<open>Some []\<close> the empty
  slice that is not nil. \<open>AppendTo\<close> and \<open>AsSlice\<close>, whose point is the storage their
  result occupies, are modelled on slice headers over a memory of backing arrays.

  Go's \<open>int\<close> is modelled by \<open>int\<close>: every index and length the code computes lies
  between \<open>-1\<close> and the length of a slice, far from the 64-bit bounds. A \<open>[]byte\<close>
  payload is a \<open>string\<close>, whose characters are bytes; only its length is inspected by
  this package, and a nil payload has length 0 as the empty one has. Functions passed
  in by the caller (predicates, conversion functions) are taken to be pure and total.
\<close>

subsection \<open>Errors and panics\<close>

datatype error =
    errors_New string  \<comment> \<open>the value of \<open>errors.New(msg)\<close>\<close>
  | json_error string  \<comment> \<open>an error of package \<open>encoding/json\<close>, by the name of its type\<close>

datatype panic =
    index_out_of_range int int  \<comment> \<open>runtime error: index out of range [i] with length n\<close>
  | slice_bounds_out_of_range  \<comment> \<open>runtime error: slice bounds out of range\<close>

subsection \<open>Slice values\<close>

type_synonym 'a slice = "'a list option"

text \<open>\<open>len\<close> of a nil slice is 0.\<close>

definition go_len :: "'a slice \<Rightarrow> int" where
  "go_len x = (case x of None \<Rightarrow> 0 | Some xs \<Rightarrow> int (length xs))"

text \<open>
  The index expression \<open>x[i]\<close> panics unless \<open>0 <= i < len(x)\<close>; on a nil slice every
  index is out of range.
\<close>

definition go_index :: "'a slice \<Rightarrow> int \<Rightarrow> panic + 'a" where
  "go_index x i =
     (case x of
        None \<Rightarrow> Inl (index_out_of_range i 0)
      | Some xs \<Rightarrow>
          if 0 \<le> i \<and> i < int (length xs) then Inr (xs ! nat i)
          else Inl (index_out_of_range i (int (length xs))))"

subsection \<open>unmarshalJSON\<close>

text \<open>
  \<open>json.Marshal\<close> and \<open>json.Unmarshal\<close> belong to Go's standard library, not to this
  package; the functions below take them as arguments. \<open>json.Unmarshal(b, x)\<close> receives
  the payload and the current value of \<open>*x\<close> and returns its error (\<open>None\<close> is Go's nil
  error) together with the value it leaves in \<open>*x\<close>.
\<close>

type_synonym 'a json_Marshal = "'a slice \<Rightarrow> error + string"

type_synonym 'a json_Unmarshal = "string \<Rightarrow> 'a slice \<Rightarrow> error option \<times> 'a slice"

definition unmarshalJSON :: "'a json_Unmarshal \<Rightarrow> string \<Rightarrow> 'a slice \<Rightarrow> error option \<times> 'a slice" where
  "unmarshalJSON json_Unmarshal b x =
     (if x \<noteq> None then (Some (errors_New ''already initialized''), x)
      else if length b = 0 then (None, x)
      else json_Unmarshal b x)"

subsection \<open>Slice\<close>

record 'a Slice =
  Slice_zh :: "'a slice"

definition SliceOf :: "'a slice \<Rightarrow> 'a Slice" where
  "SliceOf x = \<lparr>Slice_zh = x\<rparr>"

definition Slice_MarshalJSON :: "'a json_Marshal \<Rightarrow> 'a Slice \<Rightarrow> error + string" where
  "Slice_MarshalJSON json_Marshal v = json_Marshal (Slice_zh v)"

text \<open>The receiver of \<open>UnmarshalJSON\<close> is a pointer: the view is returned updated.\<close>

definition Slice_UnmarshalJSON :: "'a json_Unmarshal \<Rightarrow> string \<Rightarrow> 'a Slice \<Rightarrow> error option \<times> 'a Slice" where
  "Slice_UnmarshalJSON json_Unmarshal b v =
     (case unmarshalJSON json_Unmarshal b (Slice_zh v) of
        (err, x') \<Rightarrow> (err, v\<lparr>Slice_zh := x'\<rparr>))"

definition Slice_IsNil :: "'a Slice \<Rightarrow> bool" where
  "Slice_IsNil v = (Slice_zh v = None)"

definition Slice_Len :: "'a Slice \<Rightarrow> int" where
  "Slice_Len v = go_len (Slice_zh v)"

definition Slice_At :: "'a Slice \<Rightarrow> int \<Rightarrow> panic + 'a" where
  "Slice_At v i = go_index (Slice_zh v) i"

text \<open>
  The two scans are \<open>for i := 0; i < v.Len(); i++\<close> loops; the loop function takes the
  current \<open>i\<close>. A panic of \<open>v.At(i)\<close> would end the scan, so it is a result of the loop.
\<close>

function IndexFunc_loop :: "'a Slice \<Rightarrow> ('a \<Rightarrow> bool) \<Rightarrow> int \<Rightarrow> panic + int" where
  "IndexFunc_loop v f i =
     (if i < Slice_Len v then
        (case Slice_At v i of
           Inl p \<Rightarrow> Inl p
         | Inr e \<Rightarrow> if f e then Inr i else IndexFunc_loop v f (i + 1))
      else Inr (- 1))"
  by pat_completeness auto
termination
  by (relation "measure (\<lambda>(v, f, i). nat (Slice_Len v - i))") auto

definition Slice_IndexFunc :: "'a Slice \<Rightarrow> ('a \<Rightarrow> bool) \<Rightarrow> panic + int" where
  "Slice_IndexFunc v f = IndexFunc_loop v f 0"

function ContainsFunc_loop :: "'a Slice \<Rightarrow> ('a \<Rightarrow> bool) \<Rightarrow> int \<Rightarrow> panic + bool" where
  "ContainsFunc_loop v f i =
     (if i < Slice_Len v then
        (case Slice_At v i of
           Inl p \<Rightarrow> Inl p
         | Inr e \<Rightarrow> if f e then Inr True else ContainsFunc_loop v f (i + 1))
      else Inr False)"
  by pat_completeness auto
termination
  by (relation "measure (\<lambda>(v, f, i). nat (Slice_Len v - i))") auto

definition Slice_ContainsFunc :: "'a Slice \<Rightarrow> ('a \<Rightarrow> bool) \<Rightarrow> panic + bool" where
  "Slice_ContainsFunc v f = ContainsFunc_loop v f 0"

declare IndexFunc_loop.simps [simp del] ContainsFunc_loop.simps [simp del]

text \<open>The elements a view ranges over, for stating what the scans find.\<close>

definition Slice_elems :: "'a Slice \<Rightarrow> 'a list" where
  "Slice_elems v = (case Slice_zh v of None \<Rightarrow> [] | Some xs \<Rightarrow> xs)"

subsection \<open>Slices in memory\<close>

text \<open>
  The memory is the list of the backing arrays allocated so far; an array is named by
  its position in it. A slice is nil or a header: the array it points into, the offset
  of its first element there, its length and its capacity. The cells of a header are
  the positions of its array that it gives access to, up to its capacity.
\<close>

type_synonym 'a memory = "'a list list"

datatype header = nil_slice | Header nat nat nat nat

fun hdr_len :: "header \<Rightarrow> nat" where
  "hdr_len nil_slice = 0"
| "hdr_len (Header a off l c) = l"

fun hdr_cap :: "header \<Rightarrow> nat" where
  "hdr_cap nil_slice = 0"
| "hdr_cap (Header a off l c) = c"

fun hdr_elems :: "'a memory \<Rightarrow> header \<Rightarrow> 'a list" where
  "hdr_elems M nil_slice = []"
| "hdr_elems M (Header a off l c) = take l (drop off (M ! a))"

text \<open>The slice value that a header stands for in a memory.\<close>

fun hdr_value :: "'a memory \<Rightarrow> header \<Rightarrow> 'a slice" where
  "hdr_value M nil_slice = None"
| "hdr_value M (Header a off l c) = Some (take l (drop off (M ! a)))"

fun hdr_valid :: "'a memory \<Rightarrow> header \<Rightarrow> bool" where
  "hdr_valid M nil_slice = True"
| "hdr_valid M (Header a off l c) = (a < length M \<and> l \<le> c \<and> off + c \<le> length (M ! a))"

fun hdr_cells :: "header \<Rightarrow> (nat \<times> nat) set" where
  "hdr_cells nil_slice = {}"
| "hdr_cells (Header a off l c) = (\<lambda>i. (a, i)) ` {off..<off + c}"

text \<open>
  The full slice expression \<open>s[lo:hi:mx]\<close>: it panics unless
  \<open>lo <= hi <= mx <= cap(s)\<close>; a nil slice stays nil, any other result keeps the array.
\<close>

fun go_slice3 :: "header \<Rightarrow> nat \<Rightarrow> nat \<Rightarrow> nat \<Rightarrow> panic + header" where
  "go_slice3 s lo hi mx =
     (if lo \<le> hi \<and> hi \<le> mx \<and> mx \<le> hdr_cap s then
        (case s of
           nil_slice \<Rightarrow> Inr nil_slice
         | Header a off l c \<Rightarrow> Inr (Header a (off + lo) (hi - lo) (mx - lo)))
      else Inl slice_bounds_out_of_range)"

text \<open>
  \<open>append(dst, xs...)\<close> writes behind \<open>dst\<close> in place when the capacity suffices (with
  nothing to append \<open>dst\<close> comes back as it is, nil included), and otherwise allocates
  an array that holds the old elements and the new ones. How much room the runtime
  leaves behind them is its own business: \<open>slack\<close>, from the old capacity and the
  needed length; the spare cells hold the element type's zero value.
\<close>

definition go_append ::
  "(nat \<Rightarrow> nat \<Rightarrow> nat) \<Rightarrow> 'a \<Rightarrow> 'a memory \<Rightarrow> header \<Rightarrow> 'a list \<Rightarrow> 'a memory \<times> header" where
  "go_append slack zero M dst xs =
     (let n = hdr_len dst + length xs in
      if n \<le> hdr_cap dst then
        (case dst of
           nil_slice \<Rightarrow> (M, nil_slice)
         | Header a off l c \<Rightarrow>
             (M[a := take (off + l) (M ! a) @ xs @ drop (off + n) (M ! a)], Header a off n c))
      else
        (let c' = n + slack (hdr_cap dst) n in
         (M @ [hdr_elems M dst @ xs @ replicate (c' - n) zero], Header (length M) 0 n c')))"

text \<open>The assignment \<open>s[i] = x\<close>, which a caller may do on a slice it was handed.\<close>

definition go_store :: "'a memory \<Rightarrow> header \<Rightarrow> int \<Rightarrow> 'a \<Rightarrow> panic + 'a memory" where
  "go_store M s i x =
     (case s of
        nil_slice \<Rightarrow> Inl (index_out_of_range i 0)
      | Header a off l c \<Rightarrow>
          if 0 \<le> i \<and> i < int l then Inr (M[a := (M ! a)[off + nat i := x]])
          else Inl (index_out_of_range i (int l)))"

text \<open>
  In the next two functions the view \<open>v\<close> is given by the header of its backing slice.
\<close>

definition Slice_AppendTo ::
  "(nat \<Rightarrow> nat \<Rightarrow> nat) \<Rightarrow> 'a \<Rightarrow> 'a memory \<Rightarrow> header \<Rightarrow> header \<Rightarrow> 'a memory \<times> header" where
  "Slice_AppendTo slack zero M v dst = go_append slack zero M dst (hdr_elems M v)"

definition Slice_AsSlice ::
  "(nat \<Rightarrow> nat \<Rightarrow> nat) \<Rightarrow> 'a \<Rightarrow> 'a memory \<Rightarrow> header \<Rightarrow> panic + 'a memory \<times> header" where
  "Slice_AsSlice slack zero M v =
     (case go_slice3 v 0 0 0 of
        Inl p \<Rightarrow> Inl p
      | Inr dst \<Rightarrow> Inr (Slice_AppendTo slack zero M v dst))"

subsection \<open>Maps\<close>

text \<open>
  A Go map is nil or a finite table of entries, at most one for a key; it is an optional
  list of entries, looked up with \<open>map_of\<close>. The index expression with the comma-ok form,
  \<open>v, ok := m[k]\<close>, gives the value type's zero value and \<open>false\<close> for a key that
  is not in the map, and so for every key of the nil map. The zero value of the value
  type is an argument.
\<close>

type_synonym ('k, 'v) gomap = "('k \<times> 'v) list option"

definition go_lookup :: "'v \<Rightarrow> ('k, 'v) gomap \<Rightarrow> 'k \<Rightarrow> 'v \<times> bool" where
  "go_lookup zero m k =
     (case m of
        None \<Rightarrow> (zero, False)
      | Some al \<Rightarrow> (case map_of al k of None \<Rightarrow> (zero, False) | Some v \<Rightarrow> (v, True)))"

definition go_map_len :: "('k, 'v) gomap \<Rightarrow> int" where
  "go_map_len m = (case m of None \<Rightarrow> 0 | Some al \<Rightarrow> int (length al))"

definition go_map_entries :: "('k, 'v) gomap \<Rightarrow> ('k \<times> 'v) list" where
  "go_map_entries m = (case m of None \<Rightarrow> [] | Some al \<Rightarrow> al)"

text \<open>
  The order in which \<open>range\<close> visits the entries of a map is not specified and may
  change from one loop to the next. It is an argument of the loop: the list \<open>ord\<close> of
  the positions of the table in the order of the visit, each position once.
\<close>

definition iteration_order :: "('k, 'v) gomap \<Rightarrow> nat list \<Rightarrow> bool" where
  "iteration_order m ord =
     (case m of
        None \<Rightarrow> ord = []
      | Some al \<Rightarrow> distinct ord \<and> set ord = {0..<length al})"

text \<open>
  A \<open>MapRangeFn\<close> is a closure: besides its answer, whether to continue, it may change
  the variables it has captured, the state \<open>'s\<close>.
\<close>

type_synonym ('k, 'v, 's) MapRangeFn = "'k \<Rightarrow> 'v \<Rightarrow> 's \<Rightarrow> bool \<times> 's"

fun range_loop :: "('k, 'v, 's) MapRangeFn \<Rightarrow> ('k \<times> 'v) list \<Rightarrow> 's \<Rightarrow> 's" where
  "range_loop f [] s = s"
| "range_loop f ((k, v) # es) s =
     (case f k v s of (cont, s') \<Rightarrow> if \<not> cont then s' else range_loop f es s')"

record ('k, 'v) Map =
  Map_zh :: "('k, 'v) gomap"

definition MapOf :: "('k, 'v) gomap \<Rightarrow> ('k, 'v) Map" where
  "MapOf m = \<lparr>Map_zh = m\<rparr>"

definition Map_Has :: "'v \<Rightarrow> ('k, 'v) Map \<Rightarrow> 'k \<Rightarrow> bool" where
  "Map_Has zero m k = (case go_lookup zero (Map_zh m) k of (_, ok) \<Rightarrow> ok)"

definition Map_IsNil :: "('k, 'v) Map \<Rightarrow> bool" where
  "Map_IsNil m = (Map_zh m = None)"

definition Map_Len :: "('k, 'v) Map \<Rightarrow> int" where
  "Map_Len m = go_map_len (Map_zh m)"

definition Map_Get :: "'v \<Rightarrow> ('k, 'v) Map \<Rightarrow> 'k \<Rightarrow> 'v" where
  "Map_Get zero m k = fst (go_lookup zero (Map_zh m) k)"

definition Map_GetOk :: "'v \<Rightarrow> ('k, 'v) Map \<Rightarrow> 'k \<Rightarrow> 'v \<times> bool" where
  "Map_GetOk zero m k = (case go_lookup zero (Map_zh m) k of (v, ok) \<Rightarrow> (v, ok))"

definition Map_Range :: "nat list \<Rightarrow> ('k, 'v) Map \<Rightarrow> ('k, 'v, 's) MapRangeFn \<Rightarrow> 's \<Rightarrow> 's" where
  "Map_Range ord m f s =
     (case Map_zh m of
        None \<Rightarrow> s
      | Some al \<Rightarrow> range_loop f (map (\<lambda>i. al ! i) ord) s)"

text \<open>
  To observe which entries a visitor was called on, it is wrapped into one that also
  notes each call in a list it has captured.
\<close>

definition recording ::
  "('k, 'v, 's) MapRangeFn \<Rightarrow> ('k, 'v, ('k \<times> 'v) list \<times> 's) MapRangeFn" where
  "recording f k v = (\<lambda>(seen, s). case f k v s of (cont, s') \<Rightarrow> (cont, (seen @ [(k, v)], s')))"

subsection \<open>MapFn\<close>

record ('k, 't, 'v) MapFn =
  MapFn_zh :: "('k, 't) gomap"
  wrapv :: "'t \<Rightarrow> 'v"

definition MapFnOf :: "('k, 't) gomap \<Rightarrow> ('t \<Rightarrow> 'v) \<Rightarrow> ('k, 't, 'v) MapFn" where
  "MapFnOf m f = \<lparr>MapFn_zh = m, wrapv = f\<rparr>"

definition MapFn_Has :: "'t \<Rightarrow> ('k, 't, 'v) MapFn \<Rightarrow> 'k \<Rightarrow> bool" where
  "MapFn_Has zero m k = (case go_lookup zero (MapFn_zh m) k of (_, ok) \<Rightarrow> ok)"

definition MapFn_Get :: "'t \<Rightarrow> ('k, 't, 'v) MapFn \<Rightarrow> 'k \<Rightarrow> 'v" where
  "MapFn_Get zero m k = wrapv m (fst (go_lookup zero (MapFn_zh m) k))"

definition MapFn_IsNil :: "('k, 't, 'v) MapFn \<Rightarrow> bool" where
  "MapFn_IsNil m = (MapFn_zh m = None)"

definition MapFn_Len :: "('k, 't, 'v) MapFn \<Rightarrow> int" where
  "MapFn_Len m = go_map_len (MapFn_zh m)"

definition MapFn_GetOk :: "'t \<Rightarrow> ('k, 't, 'v) MapFn \<Rightarrow> 'k \<Rightarrow> 'v \<times> bool" where
  "MapFn_GetOk zero m k = (case go_lookup zero (MapFn_zh m) k of (v, ok) \<Rightarrow> (wrapv m v, ok))"

definition MapFn_Range ::
  "nat list \<Rightarrow> ('k, 't, 'v) MapFn \<Rightarrow> ('k, 'v, 's) MapRangeFn \<Rightarrow> 's \<Rightarrow> 's" where
  "MapFn_Range ord m f s =
     (case MapFn_zh m of
        None \<Rightarrow> s
      | Some al \<Rightarrow> range_loop (\<lambda>k v. f k (wrapv m v)) (map (\<lambda>i. al ! i) ord) s)"

subsection \<open>encoding/json on two element types\<close>

text \<open>
  To run the functions above on concrete payloads, the two library functions are
  written out for slices of booleans, and \<open>json.Marshal\<close> also for slices of funcs.
  An error of the library is given by the name of its Go type; its message is not
  modelled.

  \<open>json.Marshal\<close> writes \<open>null\<close> for a nil slice and otherwise the elements between
  brackets, separated by commas; a boolean is \<open>true\<close> or \<open>false\<close>. A func has no JSON
  encoding: the first element of a slice of funcs ends the encoding with an
  \<open>UnsupportedTypeError\<close>, so that only the nil and the empty slice of funcs are
  encoded.
\<close>

fun bool_text :: "bool \<Rightarrow> string" where
  "bool_text True = ''true''"
| "bool_text False = ''false''"

fun join_comma :: "string list \<Rightarrow> string" where
  "join_comma [] = []"
| "join_comma [s] = s"
| "join_comma (s # t # ss) = s @ '','' @ join_comma (t # ss)"

definition bools_Marshal :: "bool json_Marshal" where
  "bools_Marshal x =
     (case x of
        None \<Rightarrow> Inr ''null''
      | Some xs \<Rightarrow> Inr (''['' @ join_comma (map bool_text xs) @ '']''))"

text \<open>A value of a func type: nil, or a closure, told from the others by a number.\<close>

datatype func = nil_func | closure nat

definition funcs_Marshal :: "func json_Marshal" where
  "funcs_Marshal x =
     (case x of
        None \<Rightarrow> Inr ''null''
      | Some [] \<Rightarrow> Inr ''[]''
      | Some (f # fs) \<Rightarrow> Inl (json_error ''UnsupportedTypeError''))"

text \<open>
  \<open>json.Unmarshal\<close> first runs the library's scanner over the whole payload. The
  scanner is a state machine that reads one byte at a time: its state is the step it is
  at and the stack of the arrays and objects that are open, which may be
  \<open>maxNestingDepth\<close> deep. \<open>None\<close> is the scanner's error.
\<close>

datatype step =
    BeginValue | BeginValueOrEmpty | BeginStringOrEmpty | BeginString
  | EndValue | EndTop
  | InString | InStringEsc | InStringEscU | InStringEscU1 | InStringEscU12 | InStringEscU123
  | Neg | Zero | Digits | Dot | Dot0 | Exp | ExpSign | Exp0
  | Literal string  \<comment> \<open>inside \<open>true\<close>, \<open>false\<close> or \<open>null\<close>: the bytes still to come\<close>

datatype parseState = parseObjectKey | parseObjectValue | parseArrayValue

type_synonym scanner = "step \<times> parseState list"

definition isSpace :: "char \<Rightarrow> bool" where
  "isSpace c = (c = CHR '' '' \<or> c = CHR 0x09 \<or> c = CHR 0x0D \<or> c = CHR 0x0A)"

definition isDigit :: "char \<Rightarrow> bool" where
  "isDigit c = (c \<in> set ''0123456789'')"

definition isHex :: "char \<Rightarrow> bool" where
  "isHex c = (c \<in> set ''0123456789abcdefABCDEF'')"

definition maxNestingDepth :: nat where
  "maxNestingDepth = 10000"

definition pushParseState :: "parseState \<Rightarrow> step \<Rightarrow> parseState list \<Rightarrow> scanner option" where
  "pushParseState p success ps =
     (if length (p # ps) \<le> maxNestingDepth then Some (success, p # ps) else None)"

fun popParseState :: "parseState list \<Rightarrow> scanner option" where
  "popParseState [] = None"
| "popParseState [p] = Some (EndTop, [])"
| "popParseState (p # ps) = Some (EndValue, ps)"

fun stateEndValue :: "parseState list \<Rightarrow> char \<Rightarrow> scanner option" where
  "stateEndValue [] c = (if isSpace c then Some (EndTop, []) else None)"
| "stateEndValue (p # ps) c =
     (if isSpace c then Some (EndValue, p # ps)
      else case p of
        parseObjectKey \<Rightarrow>
          if c = CHR '':'' then Some (BeginValue, parseObjectValue # ps) else None
      | parseObjectValue \<Rightarrow>
          if c = CHR '','' then Some (BeginString, parseObjectKey # ps)
          else if c = CHR ''}'' then popParseState (p # ps)
          else None
      | parseArrayValue \<Rightarrow>
          if c = CHR '','' then Some (BeginValue, p # ps)
          else if c = CHR '']'' then popParseState (p # ps)
          else None)"

text \<open>\<open>CHR 0x22\<close> is the double quote and \<open>CHR 0x5C\<close> the backslash.\<close>

definition stateBeginValue :: "parseState list \<Rightarrow> char \<Rightarrow> scanner option" where
  "stateBeginValue ps c =
     (if isSpace c then Some (BeginValue, ps)
      else if c = CHR ''{'' then pushParseState parseObjectKey BeginStringOrEmpty ps
      else if c = CHR ''['' then pushParseState parseArrayValue BeginValueOrEmpty ps
      else if c = CHR 0x22 then Some (InString, ps)
      else if c = CHR ''-'' then Some (Neg, ps)
      else if c = CHR ''0'' then Some (Zero, ps)
      else if c = CHR ''t'' then Some (Literal ''rue'', ps)
      else if c = CHR ''f'' then Some (Literal ''alse'', ps)
      else if c = CHR ''n'' then Some (Literal ''ull'', ps)
      else if isDigit c then Some (Digits, ps)
      else None)"

definition stateBeginString :: "parseState list \<Rightarrow> char \<Rightarrow> scanner option" where
  "stateBeginString ps c =
     (if isSpace c then Some (BeginString, ps)
      else if c = CHR 0x22 then Some (InString, ps)
      else None)"

definition exponentOrEndValue :: "parseState list \<Rightarrow> char \<Rightarrow> scanner option" where
  "exponentOrEndValue ps c = (if c = CHR ''e'' \<or> c = CHR ''E'' then Some (Exp, ps) else stateEndValue ps c)"

definition state0 :: "parseState list \<Rightarrow> char \<Rightarrow> scanner option" where
  "state0 ps c = (if c = CHR ''.'' then Some (Dot, ps) else exponentOrEndValue ps c)"

fun scan_step :: "scanner \<Rightarrow> char \<Rightarrow> scanner option" where
  "scan_step (BeginValue, ps) c = stateBeginValue ps c"
| "scan_step (BeginValueOrEmpty, ps) c =
     (if isSpace c then Some (BeginValueOrEmpty, ps)
      else if c = CHR '']'' then stateEndValue ps c
      else stateBeginValue ps c)"
| "scan_step (BeginStringOrEmpty, ps) c =
     (if isSpace c then Some (BeginStringOrEmpty, ps)
      else if c = CHR ''}'' then
        (case ps of [] \<Rightarrow> None | p # ps' \<Rightarrow> stateEndValue (parseObjectValue # ps') c)
      else stateBeginString ps c)"
| "scan_step (BeginString, ps) c = stateBeginString ps c"
| "scan_step (EndValue, ps) c = stateEndValue ps c"
| "scan_step (EndTop, ps) c = (if isSpace c then Some (EndTop, ps) else None)"
| "scan_step (InString, ps) c =
     (if c = CHR 0x22 then Some (EndValue, ps)
      else if c = CHR 0x5C then Some (InStringEsc, ps)
      else if (of_char c :: nat) < 0x20 then None
      else Some (InString, ps))"
| "scan_step (InStringEsc, ps) c =
     (if c \<in> set [CHR ''b'', CHR ''f'', CHR ''n'', CHR ''r'', CHR ''t'', CHR 0x5C, CHR ''/'', CHR 0x22]
      then Some (InString, ps)
      else if c = CHR ''u'' then Some (InStringEscU, ps)
      else None)"
| "scan_step (InStringEscU, ps) c = (if isHex c then Some (InStringEscU1, ps) else None)"
| "scan_step (InStringEscU1, ps) c = (if isHex c then Some (InStringEscU12, ps) else None)"
| "scan_step (InStringEscU12, ps) c = (if isHex c then Some (InStringEscU123, ps) else None)"
| "scan_step (InStringEscU123, ps) c = (if isHex c then Some (InString, ps) else None)"
| "scan_step (Neg, ps) c =
     (if c = CHR ''0'' then Some (Zero, ps)
      else if isDigit c then Some (Digits, ps)
      else None)"
| "scan_step (Digits, ps) c = (if isDigit c then Some (Digits, ps) else state0 ps c)"
| "scan_step (Zero, ps) c = state0 ps c"
| "scan_step (Dot, ps) c = (if isDigit c then Some (Dot0, ps) else None)"
| "scan_step (Dot0, ps) c = (if isDigit c then Some (Dot0, ps) else exponentOrEndValue ps c)"
| "scan_step (Exp, ps) c =
     (if c = CHR ''+'' \<or> c = CHR ''-'' then Some (ExpSign, ps)
      else if isDigit c then Some (Exp0, ps)
      else None)"
| "scan_step (ExpSign, ps) c = (if isDigit c then Some (Exp0, ps) else None)"
| "scan_step (Exp0, ps) c = (if isDigit c then Some (Exp0, ps) else stateEndValue ps c)"
| "scan_step (Literal [], ps) c = None"
| "scan_step (Literal [l], ps) c = (if c = l then Some (EndValue, ps) else None)"
| "scan_step (Literal (l # ls), ps) c = (if c = l then Some (Literal ls, ps) else None)"

text \<open>
  For the decoding that follows the check, the scan notes the items of the outermost
  array as it passes their first byte, which tells what an item is once the payload is
  known to be valid: \<open>true\<close>, \<open>false\<close>, \<open>null\<close> or a value of another kind.
\<close>

datatype item = item_bool bool | item_null | item_other

definition item_of :: "char \<Rightarrow> item" where
  "item_of c =
     (if c = CHR ''t'' then item_bool True
      else if c = CHR ''f'' then item_bool False
      else if c = CHR ''n'' then item_null
      else item_other)"

definition begins_item :: "scanner \<Rightarrow> char \<Rightarrow> bool" where
  "begins_item s c =
     (\<not> isSpace c \<and>
      (s = (BeginValue, [parseArrayValue])
       \<or> s = (BeginValueOrEmpty, [parseArrayValue]) \<and> c \<noteq> CHR '']''))"

fun scan :: "string \<Rightarrow> scanner \<Rightarrow> item list \<Rightarrow> (scanner \<times> item list) option" where
  "scan [] s its = Some (s, its)"
| "scan (c # cs) s its =
     (case scan_step s c of
        None \<Rightarrow> None
      | Some s' \<Rightarrow> scan cs s' (if begins_item s c then its @ [item_of c] else its))"

text \<open>
  At the end of the payload the scanner is fed a space; the payload is valid when that
  leaves it behind a complete top-level value.
\<close>

definition checkValid :: "string \<Rightarrow> item list option" where
  "checkValid b =
     (case scan b (BeginValue, []) [] of
        None \<Rightarrow> None
      | Some (s, its) \<Rightarrow>
          (case scan_step s (CHR '' '') of
             Some (EndTop, ps) \<Rightarrow> Some its
           | _ \<Rightarrow> None))"

text \<open>
  Decoding into a slice of booleans. A payload that is not valid is a \<open>SyntaxError\<close> and
  leaves \<open>*x\<close> alone. \<open>null\<close> makes \<open>*x\<close> nil. An array makes \<open>*x\<close> a slice that is not nil,
  with an element for each item: the boolean for \<open>true\<close> and \<open>false\<close>; for any other item
  the element as it was, which is \<open>false\<close> in a new element, and unless the item is
  \<open>null\<close> an \<open>UnmarshalTypeError\<close>, returned after the whole array has been decoded. Any
  other top-level value is an \<open>UnmarshalTypeError\<close> and leaves \<open>*x\<close> alone.

  This package calls \<open>json.Unmarshal\<close> on a nil slice only. For a slice that is not nil
  the elements that are kept are those within its length, as in the library when the
  slice has no capacity beyond its length.
\<close>

fun store_items :: "item list \<Rightarrow> bool list \<Rightarrow> bool list" where
  "store_items [] old = []"
| "store_items (it # its) old =
     (case it of
        item_bool y \<Rightarrow> y
      | _ \<Rightarrow> (case old of [] \<Rightarrow> False | y0 # _ \<Rightarrow> y0)) # store_items its (tl old)"

definition bools_Unmarshal :: "bool json_Unmarshal" where
  "bools_Unmarshal b x =
     (case checkValid b of
        None \<Rightarrow> (Some (json_error ''SyntaxError''), x)
      | Some its \<Rightarrow>
          (case dropWhile isSpace b of
             [] \<Rightarrow> (Some (json_error ''SyntaxError''), x)
           | c # _ \<Rightarrow>
               if c = CHR ''n'' then (None, None)
               else if c = CHR ''['' then
                 (if item_other \<in> set its then Some (json_error ''UnmarshalTypeError'') else None,
                  Some (store_items its (case x of None \<Rightarrow> [] | Some old \<Rightarrow> old)))
               else (Some (json_error ''UnmarshalTypeError''), x)))"

section \<open>Decoding guards\<close>

text \<open>
  C2. A view whose backing slice is not nil rejects every payload with the error
  "already initialized" and keeps its backing slice; the view that comes back is the
  same, so decoding into it once more fails in the same way.
\<close>

theorem Slice_UnmarshalJSON_already_initialized:
  assumes "\<not> Slice_IsNil v"
  shows "Slice_UnmarshalJSON ju b v = (Some (errors_New ''already initialized''), v)
       \<and> Slice_UnmarshalJSON ju b' (snd (Slice_UnmarshalJSON ju b v))
           = (Some (errors_New ''already initialized''), v)"
  using assms by (simp add: Slice_UnmarshalJSON_def unmarshalJSON_def Slice_IsNil_def)

theorem Slice_UnmarshalJSON_already_initialized_witness:
  "\<not> Slice_IsNil (SliceOf (Some [True]))
   \<and> Slice_UnmarshalJSON bools_Unmarshal ''[false]'' (SliceOf (Some [True]))
       = (Some (errors_New ''already initialized''), SliceOf (Some [True]))
   \<and> Slice_UnmarshalJSON bools_Unmarshal ''null''
         (snd (Slice_UnmarshalJSON bools_Unmarshal ''[false]'' (SliceOf (Some [True]))))
       = (Some (errors_New ''already initialized''), SliceOf (Some [True]))"
proof -
  have h: "\<not> Slice_IsNil (SliceOf (Some [True]))"
    by (simp add: Slice_IsNil_def SliceOf_def)
  from Slice_UnmarshalJSON_already_initialized [OF h, of bools_Unmarshal "''[false]''" "''null''"] h
  show ?thesis by blast
qed

text \<open>
  C3 as stated: an empty payload is accepted whatever the view holds. It fails on a view
  over the empty slice that is not nil: the nil test comes first and the call returns
  the error.
\<close>

theorem Slice_UnmarshalJSON_empty_payload_counterexample:
  "Slice_UnmarshalJSON bools_Unmarshal [] (SliceOf (Some []))
     = (Some (errors_New ''already initialized''), SliceOf (Some []))
   \<and> fst (Slice_UnmarshalJSON bools_Unmarshal [] (SliceOf (Some []))) \<noteq> None"
  by (simp add: Slice_UnmarshalJSON_def unmarshalJSON_def SliceOf_def)

text \<open>
  C3, amended. With an empty payload the decoder is never consulted and the backing
  slice is left as it was; the call returns no error exactly when the backing slice is
  nil, and the error "already initialized" otherwise.
\<close>

theorem Slice_UnmarshalJSON_empty_payload:
  "Slice_UnmarshalJSON ju [] v =
     (if Slice_IsNil v then None else Some (errors_New ''already initialized''), v)"
  by (simp add: Slice_UnmarshalJSON_def unmarshalJSON_def Slice_IsNil_def)

theorem Slice_UnmarshalJSON_empty_payload_witness:
  "Slice_UnmarshalJSON bools_Unmarshal [] (SliceOf None) = (None, SliceOf None)"
  using Slice_UnmarshalJSON_empty_payload [of bools_Unmarshal "SliceOf None"]
  by (simp add: Slice_IsNil_def SliceOf_def)

section \<open>Round trip through JSON\<close>

lemmas scan_defs = stateBeginValue_def begins_item_def item_of_def isSpace_def
  pushParseState_def maxNestingDepth_def

text \<open>
  C1 as stated: for every backing slice, encoding its view and decoding the bytes into
  a view over nil succeeds and gives the slice back. It fails already at the encoding
  for a slice the library cannot encode: for the slice that holds one nil func,
  \<open>MarshalJSON\<close> returns the library's error and no bytes.
\<close>

theorem Slice_MarshalJSON_UnmarshalJSON_roundtrip_counterexample:
  "Slice_MarshalJSON funcs_Marshal (SliceOf (Some [nil_func]))
     = Inl (json_error ''UnsupportedTypeError'')
 \<and> isl (Slice_MarshalJSON funcs_Marshal (SliceOf (Some [nil_func])))"
  by (simp add: Slice_MarshalJSON_def funcs_Marshal_def SliceOf_def)

text \<open>
  C1, amended. \<open>MarshalJSON\<close> on the view of a backing slice \<open>C\<close> returns what
  \<open>json.Marshal\<close> returns on \<open>C\<close>, the same bytes or the same error. For a payload \<open>b\<close>
  that is not empty, as the bytes \<open>json.Marshal\<close> writes never are, \<open>UnmarshalJSON\<close> of
  \<open>b\<close> into a view whose backing slice is nil succeeds and yields the view of \<open>C\<close> exactly
  when \<open>json.Unmarshal\<close> of \<open>b\<close> into a nil slice succeeds and leaves \<open>C\<close>. So the round
  trip through the view succeeds and yields \<open>C\<close> for exactly those backing slices that
  \<open>encoding/json\<close> itself carries through a round trip.
\<close>

theorem Slice_MarshalJSON_UnmarshalJSON_roundtrip:
  "Slice_MarshalJSON jm (SliceOf C) = jm C
 \<and> (length b \<noteq> 0 \<longrightarrow>
      (Slice_UnmarshalJSON ju b (SliceOf None) = (None, SliceOf C)
         \<longleftrightarrow> ju b None = (None, C)))"
proof -
  obtain err x' where u: "ju b None = (err, x')"
    by (cases "ju b None") auto
  then have "length b \<noteq> 0 \<Longrightarrow> Slice_UnmarshalJSON ju b (SliceOf None) = (err, SliceOf x')"
    by (simp add: Slice_UnmarshalJSON_def unmarshalJSON_def SliceOf_def)
  with u show ?thesis
    by (auto simp: Slice_MarshalJSON_def SliceOf_def)
qed

theorem Slice_MarshalJSON_UnmarshalJSON_roundtrip_witness:
  "Slice_MarshalJSON bools_Marshal (SliceOf (Some [True, False])) = Inr ''[true,false]''
   \<and> Slice_UnmarshalJSON bools_Unmarshal ''[true,false]'' (SliceOf None)
       = (None, SliceOf (Some [True, False]))"
proof -
  have m: "bools_Marshal (Some [True, False]) = Inr ''[true,false]''"
    by (simp add: bools_Marshal_def)
  have n: "length ''[true,false]'' \<noteq> 0"
    by simp
  have u: "bools_Unmarshal ''[true,false]'' None = (None, Some [True, False])"
    by (simp add: bools_Unmarshal_def checkValid_def scan_defs)
  from Slice_MarshalJSON_UnmarshalJSON_roundtrip
      [of bools_Marshal "Some [True, False]" "''[true,false]''" bools_Unmarshal] m n u
  show ?thesis by simp
qed

text \<open>
  The library carries every slice of booleans through a round trip, so for them the
  round trip through the view holds on every backing slice.
\<close>

lemma scan_bool_text:
  assumes "s = (BeginValue, [parseArrayValue]) \<or> s = (BeginValueOrEmpty, [parseArrayValue])"
  shows "scan (bool_text y @ cs) s its = scan cs (EndValue, [parseArrayValue]) (its @ [item_bool y])"
  using assms by (cases y) (auto simp: scan_defs)

lemma scan_join_comma:
  assumes "xs \<noteq> []"
    and "s = (BeginValue, [parseArrayValue]) \<or> s = (BeginValueOrEmpty, [parseArrayValue])"
  shows "scan (join_comma (map bool_text xs) @ cs) s its
           = scan cs (EndValue, [parseArrayValue]) (its @ map item_bool xs)"
  using assms
proof (induction xs arbitrary: s its rule: induct_list012)
  case 1
  then show ?case by simp
next
  case (2 x)
  then show ?case using scan_bool_text [of s x cs its] by simp
next
  case (3 x y zs)
  have "scan (join_comma (map bool_text (x # y # zs)) @ cs) s its
          = scan (CHR '','' # join_comma (map bool_text (y # zs)) @ cs)
              (EndValue, [parseArrayValue]) (its @ [item_bool x])"
    using scan_bool_text [OF "3.prems"(2)] by simp
  also have "\<dots> = scan (join_comma (map bool_text (y # zs)) @ cs)
              (BeginValue, [parseArrayValue]) (its @ [item_bool x])"
    by (simp add: scan_defs)
  also have "\<dots> = scan cs (EndValue, [parseArrayValue])
              ((its @ [item_bool x]) @ map item_bool (y # zs))"
    by (rule "3.IH"(2)) simp_all
  finally show ?case by simp
qed

lemma checkValid_bools:
  "checkValid (''['' @ join_comma (map bool_text xs) @ '']'') = Some (map item_bool xs)"
proof (cases "xs = []")
  case True
  then show ?thesis by (simp add: checkValid_def scan_defs)
next
  case False
  have "scan (''['' @ join_comma (map bool_text xs) @ '']'') (BeginValue, []) []
          = scan (join_comma (map bool_text xs) @ '']'') (BeginValueOrEmpty, [parseArrayValue]) []"
    by (simp add: scan_defs)
  also have "\<dots> = scan '']'' (EndValue, [parseArrayValue]) ([] @ map item_bool xs)"
    using False by (rule scan_join_comma) simp
  also have "\<dots> = Some ((EndTop, []), map item_bool xs)"
    by (simp add: scan_defs)
  finally show ?thesis by (simp add: checkValid_def scan_defs)
qed

lemma store_items_bools: "store_items (map item_bool xs) old = xs"
  by (induction xs arbitrary: old) simp_all

lemma bools_codec_roundtrip:
  "\<exists>b. bools_Marshal C = Inr b \<and> length b \<noteq> 0 \<and> bools_Unmarshal b None = (None, C)"
proof (cases C)
  case None
  have "bools_Unmarshal ''null'' None = (None, None)"
    by (simp add: bools_Unmarshal_def checkValid_def scan_defs)
  with None show ?thesis by (simp add: bools_Marshal_def)
next
  case (Some xs)
  let ?b = "''['' @ join_comma (map bool_text xs) @ '']''"
  have "item_other \<notin> set (map item_bool xs)" by auto
  then have "bools_Unmarshal ?b None = (None, Some xs)"
    unfolding bools_Unmarshal_def checkValid_bools
    by (simp add: store_items_bools isSpace_def)
  with Some show ?thesis by (simp add: bools_Marshal_def)
qed

lemma bools_view_roundtrip:
  "\<exists>b. Slice_MarshalJSON bools_Marshal (SliceOf C) = Inr b
      \<and> Slice_UnmarshalJSON bools_Unmarshal b (SliceOf None) = (None, SliceOf C)"
proof -
  from bools_codec_roundtrip [of C] obtain b where
    "bools_Marshal C = Inr b" "length b \<noteq> 0" "bools_Unmarshal b None = (None, C)"
    by blast
  then show ?thesis
    by (simp add: Slice_MarshalJSON_def Slice_UnmarshalJSON_def unmarshalJSON_def SliceOf_def)
qed

text \<open>
  The decoder on payloads that \<open>json.Marshal\<close> does not write: space between the tokens
  is skipped, a \<open>null\<close> item leaves a new element \<open>false\<close>, an item of another kind does
  so too and is reported, and a payload that is cut short is refused with \<open>*x\<close> untouched.
\<close>

lemma bools_Unmarshal_examples:
  "bools_Unmarshal '' [ true , false ] '' None = (None, Some [True, False])"
  "bools_Unmarshal ''[null]'' None = (None, Some [False])"
  "bools_Unmarshal ''[1]'' None = (Some (json_error ''UnmarshalTypeError''), Some [False])"
  "bools_Unmarshal ''[true'' None = (Some (json_error ''SyntaxError''), None)"
  "bools_Unmarshal ''true'' None = (Some (json_error ''UnmarshalTypeError''), None)"
  by (simp_all add: bools_Unmarshal_def checkValid_def scan_defs state0_def exponentOrEndValue_def isDigit_def)

section \<open>Reading a slice through its view\<close>

text \<open>
  C4. \<open>At(i)\<close> returns the element at position \<open>i\<close> of the backing slice when
  \<open>0 <= i < Len()\<close> and panics with an index-out-of-range error otherwise, and in no
  other case: within the range the result is never a panic.
\<close>

theorem Slice_At_in_range_or_panic:
  "(0 \<le> i \<and> i < Slice_Len (SliceOf (Some S)) \<longrightarrow> Slice_At (SliceOf (Some S)) i = Inr (S ! nat i))
 \<and> ((\<exists>p. Slice_At v i = Inl p) \<longleftrightarrow> \<not> (0 \<le> i \<and> i < Slice_Len v))
 \<and> (\<not> (0 \<le> i \<and> i < Slice_Len v) \<longrightarrow> Slice_At v i = Inl (index_out_of_range i (Slice_Len v)))"
  by (auto simp: Slice_At_def Slice_Len_def go_len_def go_index_def SliceOf_def split: option.splits)

theorem Slice_At_in_range_or_panic_witness:
  "Slice_At (SliceOf (Some [10, 20, 30 :: nat])) 1 = Inr 20
 \<and> Slice_At (SliceOf (Some [10, 20, 30 :: nat])) 3 = Inl (index_out_of_range 3 3)
 \<and> Slice_At (SliceOf (Some [10, 20, 30 :: nat])) (- 1) = Inl (index_out_of_range (- 1) 3)"
  using Slice_At_in_range_or_panic [of 1 "[10, 20, 30 :: nat]" "SliceOf (Some [10, 20, 30 :: nat])"]
    Slice_At_in_range_or_panic [of 3 "[10, 20, 30 :: nat]" "SliceOf (Some [10, 20, 30 :: nat])"]
    Slice_At_in_range_or_panic [of "- 1" "[10, 20, 30 :: nat]" "SliceOf (Some [10, 20, 30 :: nat])"]
  by (simp add: Slice_Len_def go_len_def SliceOf_def)

text \<open>
  C5. The view of the nil slice reports \<open>IsNil\<close>; the view of the empty slice that is not
  nil does not, and has length 0. So the nil and the empty state are told apart.
\<close>

theorem Slice_IsNil_distinguishes_nil_from_empty:
  "Slice_IsNil (SliceOf (None :: 'a slice))
 \<and> \<not> Slice_IsNil (SliceOf (Some ([] :: 'a list)))
 \<and> Slice_Len (SliceOf (Some ([] :: 'a list))) = 0
 \<and> SliceOf (None :: 'a slice) \<noteq> SliceOf (Some [])"
  by (simp add: Slice_IsNil_def Slice_Len_def go_len_def SliceOf_def)

section \<open>Linear scans\<close>

lemma Slice_Len_elems: "Slice_Len v = int (length (Slice_elems v))"
  by (simp add: Slice_Len_def go_len_def Slice_elems_def split: option.splits)

lemma Slice_At_elems:
  "0 \<le> i \<Longrightarrow> i < Slice_Len v \<Longrightarrow> Slice_At v i = Inr (Slice_elems v ! nat i)"
  by (auto simp: Slice_At_def go_index_def Slice_Len_def go_len_def Slice_elems_def
      split: option.splits)

lemma Slice_At_Inr:
  "Slice_At v k = Inr e \<Longrightarrow> 0 \<le> k \<and> k < Slice_Len v \<and> e = Slice_elems v ! nat k"
  by (auto simp: Slice_At_def go_index_def Slice_Len_def go_len_def Slice_elems_def
      split: option.splits if_splits)

text \<open>
  Started at \<open>i\<close>, the scan of \<open>IndexFunc\<close> does not panic; it returns \<open>-1\<close> or an index
  from \<open>i\<close> on whose element satisfies \<open>f\<close>, and no element from \<open>i\<close> up to the index
  returned (up to the end, for \<open>-1\<close>) satisfies \<open>f\<close>.
\<close>

lemma IndexFunc_loop_finds_first:
  "0 \<le> i \<Longrightarrow>
   \<exists>j. IndexFunc_loop v f i = Inr j
      \<and> (j = - 1 \<or> i \<le> j \<and> j < Slice_Len v \<and> f (Slice_elems v ! nat j))
      \<and> (\<forall>k. i \<le> k \<and> k < (if j = - 1 then Slice_Len v else j) \<longrightarrow> \<not> f (Slice_elems v ! nat k))"
proof (induction v f i rule: IndexFunc_loop.induct)
  case (1 v f i)
  show ?case
  proof (cases "i < Slice_Len v")
    case False
    then show ?thesis by (subst IndexFunc_loop.simps) auto
  next
    case True
    note at = Slice_At_elems [OF "1.prems" True]
    show ?thesis
    proof (cases "f (Slice_elems v ! nat i)")
      case True
      with \<open>i < Slice_Len v\<close> at "1.prems" show ?thesis
        by (subst IndexFunc_loop.simps) auto
    next
      case False
      from "1.IH" [OF \<open>i < Slice_Len v\<close> at False] "1.prems"
      obtain j where j: "IndexFunc_loop v f (i + 1) = Inr j"
        "j = - 1 \<or> i + 1 \<le> j \<and> j < Slice_Len v \<and> f (Slice_elems v ! nat j)"
        "\<forall>k. i + 1 \<le> k \<and> k < (if j = - 1 then Slice_Len v else j) \<longrightarrow> \<not> f (Slice_elems v ! nat k)"
        by auto
      have eq: "IndexFunc_loop v f i = Inr j"
        using \<open>i < Slice_Len v\<close> at False j(1) by (subst IndexFunc_loop.simps) simp
      have "\<forall>k. i \<le> k \<and> k < (if j = - 1 then Slice_Len v else j) \<longrightarrow> \<not> f (Slice_elems v ! nat k)"
      proof (intro allI impI)
        fix k
        assume k: "i \<le> k \<and> k < (if j = - 1 then Slice_Len v else j)"
        show "\<not> f (Slice_elems v ! nat k)"
        proof (cases "k = i")
          case True
          with False show ?thesis by simp
        next
          case False
          with k have "i + 1 \<le> k" by simp
          with k j(3) show ?thesis by blast
        qed
      qed
      with eq j(2) show ?thesis by auto
    qed
  qed
qed

text \<open>The two scans run in step: \<open>ContainsFunc\<close> answers whether \<open>IndexFunc\<close> found an index.\<close>

lemma ContainsFunc_loop_IndexFunc_loop:
  "0 \<le> i \<Longrightarrow>
   ContainsFunc_loop v f i =
     (case IndexFunc_loop v f i of Inl p \<Rightarrow> Inl p | Inr j \<Rightarrow> Inr (j \<noteq> - 1))"
proof (induction v f i rule: IndexFunc_loop.induct)
  case (1 v f i)
  show ?case
  proof (cases "i < Slice_Len v")
    case False
    then show ?thesis
      by (subst IndexFunc_loop.simps, subst ContainsFunc_loop.simps) simp
  next
    case True
    note at = Slice_At_elems [OF "1.prems" True]
    show ?thesis
    proof (cases "f (Slice_elems v ! nat i)")
      case True
      with \<open>i < Slice_Len v\<close> at "1.prems" show ?thesis
        by (subst IndexFunc_loop.simps, subst ContainsFunc_loop.simps) auto
    next
      case False
      from "1.IH" [OF \<open>i < Slice_Len v\<close> at False] "1.prems"
      have "ContainsFunc_loop v f (i + 1) =
              (case IndexFunc_loop v f (i + 1) of Inl p \<Rightarrow> Inl p | Inr j \<Rightarrow> Inr (j \<noteq> - 1))"
        by simp
      with \<open>i < Slice_Len v\<close> at False show ?thesis
        by (subst IndexFunc_loop.simps, subst ContainsFunc_loop.simps) simp
    qed
  qed
qed

text \<open>
  C10. Neither scan panics. \<open>ContainsFunc(f)\<close> is true if and only if \<open>IndexFunc(f)\<close> is
  not \<open>-1\<close>. \<open>IndexFunc(f)\<close> returns \<open>-1\<close> or an index inside the view; an index it returns
  is the least one whose element satisfies \<open>f\<close>, and it returns \<open>-1\<close> only when no
  element does.
\<close>

theorem Slice_ContainsFunc_iff_IndexFunc:
  "\<exists>c j. Slice_ContainsFunc v f = Inr c \<and> Slice_IndexFunc v f = Inr j
     \<and> (c \<longleftrightarrow> j \<noteq> - 1)
     \<and> (j = - 1 \<or> 0 \<le> j \<and> j < Slice_Len v)
     \<and> (j \<noteq> - 1 \<longrightarrow>
          (\<exists>e. Slice_At v j = Inr e \<and> f e)
        \<and> (\<forall>k e. k < j \<and> Slice_At v k = Inr e \<longrightarrow> \<not> f e))
     \<and> (j = - 1 \<longrightarrow> (\<forall>k e. Slice_At v k = Inr e \<longrightarrow> \<not> f e))"
proof -
  from IndexFunc_loop_finds_first [of 0 v f]
  obtain j where j: "IndexFunc_loop v f 0 = Inr j"
    "j = - 1 \<or> 0 \<le> j \<and> j < Slice_Len v \<and> f (Slice_elems v ! nat j)"
    "\<forall>k. 0 \<le> k \<and> k < (if j = - 1 then Slice_Len v else j) \<longrightarrow> \<not> f (Slice_elems v ! nat k)"
    by auto
  from ContainsFunc_loop_IndexFunc_loop [of 0 v f] j(1)
  have c: "Slice_ContainsFunc v f = Inr (j \<noteq> - 1)"
    by (simp add: Slice_ContainsFunc_def)
  have found: "(\<exists>e. Slice_At v j = Inr e \<and> f e) \<and> (\<forall>k e. k < j \<and> Slice_At v k = Inr e \<longrightarrow> \<not> f e)"
    if "j \<noteq> - 1"
  proof
    from that j(2) have "0 \<le> j" "j < Slice_Len v" "f (Slice_elems v ! nat j)" by auto
    with Slice_At_elems [of j v] show "\<exists>e. Slice_At v j = Inr e \<and> f e" by auto
  next
    show "\<forall>k e. k < j \<and> Slice_At v k = Inr e \<longrightarrow> \<not> f e"
    proof (intro allI impI)
      fix k e
      assume ke: "k < j \<and> Slice_At v k = Inr e"
      with Slice_At_Inr [of v k e] have "0 \<le> k" "e = Slice_elems v ! nat k" by auto
      with ke that j(3) show "\<not> f e" by auto
    qed
  qed
  have none: "\<forall>k e. Slice_At v k = Inr e \<longrightarrow> \<not> f e" if "j = - 1"
  proof (intro allI impI)
    fix k e
    assume "Slice_At v k = Inr e"
    with Slice_At_Inr [of v k e] have "0 \<le> k" "k < Slice_Len v" "e = Slice_elems v ! nat k"
      by auto
    with that j(3) show "\<not> f e" by auto
  qed
  from j(1) c j(2) found none show ?thesis
    by (auto simp: Slice_IndexFunc_def)
qed

theorem Slice_ContainsFunc_iff_IndexFunc_witness:
  "Slice_ContainsFunc (SliceOf (Some [1, 2, 3, 2 :: nat])) (\<lambda>e. e = 2) = Inr True
 \<and> Slice_IndexFunc (SliceOf (Some [1, 2, 3, 2 :: nat])) (\<lambda>e. e = 2) = Inr 1
 \<and> Slice_ContainsFunc (SliceOf (Some [1, 2, 3, 2 :: nat])) (\<lambda>e. e = 9) = Inr False
 \<and> Slice_IndexFunc (SliceOf (Some [1, 2, 3, 2 :: nat])) (\<lambda>e. e = 9) = Inr (- 1)"
proof -
  let ?v = "SliceOf (Some [1, 2, 3, 2 :: nat])"
  have at: "Slice_At ?v 0 = Inr 1" "Slice_At ?v 1 = Inr 2"
    by (simp_all add: Slice_At_def go_index_def SliceOf_def)
  have len: "Slice_Len ?v = 4"
    by (simp add: Slice_Len_def go_len_def SliceOf_def)
  from Slice_ContainsFunc_iff_IndexFunc [of ?v "\<lambda>e. e = 2"]
  obtain c j where a: "Slice_ContainsFunc ?v (\<lambda>e. e = 2) = Inr c"
    "Slice_IndexFunc ?v (\<lambda>e. e = 2) = Inr j" "c \<longleftrightarrow> j \<noteq> - 1"
    "j = - 1 \<or> 0 \<le> j \<and> j < Slice_Len ?v"
    "j \<noteq> - 1 \<longrightarrow> (\<exists>e. Slice_At ?v j = Inr e \<and> e = 2)
        \<and> (\<forall>k e. k < j \<and> Slice_At ?v k = Inr e \<longrightarrow> e \<noteq> 2)"
    "j = - 1 \<longrightarrow> (\<forall>k e. Slice_At ?v k = Inr e \<longrightarrow> e \<noteq> 2)"
    by blast
  from a(6) at(2) have j1: "j \<noteq> - 1" by auto
  with a(5) at(2) have "\<not> 1 < j" by blast
  moreover from j1 a(5) at(1) have "j \<noteq> 0" by auto
  moreover from j1 a(4) have "0 \<le> j" by simp
  ultimately have "j = 1" by simp
  with a have two: "Slice_ContainsFunc ?v (\<lambda>e. e = 2) = Inr True"
    "Slice_IndexFunc ?v (\<lambda>e. e = 2) = Inr 1" by simp_all
  have nine: "Slice_ContainsFunc ?v (\<lambda>e. e = 9) = Inr False"
    "Slice_IndexFunc ?v (\<lambda>e. e = 9) = Inr (- 1)"
    by (simp_all add: Slice_ContainsFunc_def Slice_IndexFunc_def ContainsFunc_loop.simps
        IndexFunc_loop.simps Slice_At_def go_index_def Slice_Len_def go_len_def SliceOf_def)
  from two nine show ?thesis by simp
qed

section \<open>AsSlice returns a copy\<close>

lemma Slice_AsSlice_nil: "Slice_AsSlice slack zero M nil_slice = Inr (M, nil_slice)"
  by (simp add: Slice_AsSlice_def Slice_AppendTo_def go_append_def)

lemma Slice_AsSlice_empty:
  "Slice_AsSlice slack zero M (Header a off 0 c) = Inr (M, Header a off 0 0)"
  by (simp add: Slice_AsSlice_def Slice_AppendTo_def go_append_def)

lemma Slice_AsSlice_fresh:
  assumes "hdr_valid M (Header a off l c)" and "0 < l"
  shows "Slice_AsSlice slack zero M (Header a off l c) =
     Inr (M @ [take l (drop off (M ! a)) @ replicate (slack 0 l) zero],
          Header (length M) 0 l (l + slack 0 l))"
proof -
  from assms(1) have "length (take l (drop off (M ! a))) = l" by auto
  with assms(2) show ?thesis
    by (simp add: Slice_AsSlice_def Slice_AppendTo_def go_append_def Let_def)
qed

text \<open>
  The three ways \<open>AsSlice\<close> ends: nil for a nil backing slice; for an empty one the same
  position with capacity 0, memory untouched; otherwise a header for a new array, put
  behind the arrays there were.
\<close>

lemma Slice_AsSlice_cases:
  assumes "hdr_valid M S"
  obtains
    (nil) "S = nil_slice" "Slice_AsSlice slack zero M S = Inr (M, nil_slice)"
  | (empty) a off c where "S = Header a off 0 c"
      "Slice_AsSlice slack zero M S = Inr (M, Header a off 0 0)"
  | (fresh) a off l c where "S = Header a off l c" "0 < l"
      "Slice_AsSlice slack zero M S =
         Inr (M @ [take l (drop off (M ! a)) @ replicate (slack 0 l) zero],
              Header (length M) 0 l (l + slack 0 l))"
proof (cases S)
  case nil_slice
  with nil Slice_AsSlice_nil show ?thesis by metis
next
  case (Header a off l c)
  show ?thesis
  proof (cases "l = 0")
    case True
    with Header empty Slice_AsSlice_empty show ?thesis by metis
  next
    case False
    with Header assms fresh [of a off l c] Slice_AsSlice_fresh [of M a off l c slack zero]
    show ?thesis by simp
  qed
qed

lemma Slice_AsSlice_result:
  assumes "hdr_valid M S"
  shows "\<exists>M' r. Slice_AsSlice slack zero M S = Inr (M', r)
           \<and> hdr_valid M' r \<and> hdr_valid M' S
           \<and> hdr_value M' r = hdr_value M S \<and> hdr_value M' S = hdr_value M S
           \<and> hdr_cells r \<inter> {(a, i). a < length M} = {}"
  using assms
proof (cases rule: Slice_AsSlice_cases [where slack = slack and zero = zero])
  case nil
  then show ?thesis by simp
next
  case (empty a off c)
  with assms show ?thesis by auto
next
  case (fresh a off l c)
  with assms show ?thesis by (auto simp: nth_append)
qed

lemma hdr_valid_cells: "hdr_valid M S \<Longrightarrow> hdr_cells S \<subseteq> {(a, i). a < length M}"
  by (cases S) auto

text \<open>A store through a header leaves alone every slice that shares no cell with it.\<close>

lemma go_store_elsewhere:
  assumes "hdr_valid M S" and "hdr_valid M r" and "hdr_cells r \<inter> hdr_cells S = {}"
    and "go_store M r i x = Inr M'"
  shows "hdr_value M' S = hdr_value M S \<and> hdr_valid M' S"
proof (cases S)
  case nil_slice
  then show ?thesis by simp
next
  case S: (Header a off l c)
  from assms(4) obtain a' off' l' c' where r: "r = Header a' off' l' c'"
    and i: "0 \<le> i" "i < int l'" and M': "M' = M[a' := (M ! a')[off' + nat i := x]]"
    by (cases r) (auto simp: go_store_def split: if_splits)
  show ?thesis
  proof (cases "a' = a")
    case False
    with S M' assms(1) show ?thesis by auto
  next
    case True
    from assms(2) r i have "(a', off' + nat i) \<in> hdr_cells r" by auto
    with assms(3) have "(a', off' + nat i) \<notin> hdr_cells S" by blast
    with S True have out: "off' + nat i < off \<or> off + c \<le> off' + nat i" by auto
    from assms(1) S have lc: "l \<le> c" "a < length M" by auto
    have "take l (drop off ((M ! a)[off' + nat i := x])) = take l (drop off (M ! a))"
    proof (rule nth_equalityI)
      show "length (take l (drop off ((M ! a)[off' + nat i := x])))
              = length (take l (drop off (M ! a)))"
        by simp
    next
      fix j
      assume "j < length (take l (drop off ((M ! a)[off' + nat i := x])))"
      then have j: "j < l" "off + j < length (M ! a)" by auto
      with out lc have "off + j \<noteq> off' + nat i" by auto
      with j show "take l (drop off ((M ! a)[off' + nat i := x])) ! j
                     = take l (drop off (M ! a)) ! j"
        by simp
    qed
    with S True M' lc assms(1) show ?thesis by auto
  qed
qed

lemma go_store_in_range:
  "0 \<le> i \<Longrightarrow> i < int (hdr_len r) \<Longrightarrow> \<exists>M'. go_store M r i x = Inr M'"
  by (cases r) (simp_all add: go_store_def)

text \<open>
  C6. For a backing slice \<open>S\<close> that is well-formed in memory, \<open>AsSlice\<close> returns a slice
  whose elements equal those of \<open>S\<close>, in order (and which is nil exactly when \<open>S\<close> is);
  \<open>S\<close> itself still reads the same. The result shares no cell of storage with \<open>S\<close>.
  So every assignment to an element of the result succeeds and leaves \<open>S\<close> as it was,
  and a later \<open>AsSlice\<close> returns the elements of \<open>S\<close> again.
\<close>

theorem Slice_AsSlice_independent_copy:
  assumes "hdr_valid M S"
  shows "\<exists>M' r. Slice_AsSlice slack zero M S = Inr (M', r)
     \<and> hdr_value M' r = hdr_value M S
     \<and> hdr_value M' S = hdr_value M S
     \<and> hdr_cells r \<inter> hdr_cells S = {}
     \<and> (\<forall>i x. 0 \<le> i \<and> i < int (hdr_len r) \<longrightarrow>
          (\<exists>N N' r'. go_store M' r i x = Inr N
             \<and> hdr_value N S = hdr_value M S
             \<and> Slice_AsSlice slack zero N S = Inr (N', r')
             \<and> hdr_value N' r' = hdr_value M S))"
proof -
  from Slice_AsSlice_result [OF assms, of slack zero]
  obtain M' r where r: "Slice_AsSlice slack zero M S = Inr (M', r)"
    "hdr_valid M' r" "hdr_valid M' S"
    "hdr_value M' r = hdr_value M S" "hdr_value M' S = hdr_value M S"
    "hdr_cells r \<inter> {(a, i). a < length M} = {}"
    by blast
  from r(6) hdr_valid_cells [OF assms] have disj: "hdr_cells r \<inter> hdr_cells S = {}"
    by blast
  have later: "\<exists>N N' r'. go_store M' r i x = Inr N
             \<and> hdr_value N S = hdr_value M S
             \<and> Slice_AsSlice slack zero N S = Inr (N', r')
             \<and> hdr_value N' r' = hdr_value M S"
    if "0 \<le> i \<and> i < int (hdr_len r)" for i x
  proof -
    from that go_store_in_range [of i r M' x]
    obtain N where st: "go_store M' r i x = Inr N" by blast
    from go_store_elsewhere [OF r(3) r(2) disj st] r(5)
    have keep: "hdr_value N S = hdr_value M S" "hdr_valid N S" by simp_all
    from Slice_AsSlice_result [OF keep(2), of slack zero] keep(1)
    obtain N' r' where "Slice_AsSlice slack zero N S = Inr (N', r')"
      "hdr_value N' r' = hdr_value M S"
      by auto
    with st keep(1) show ?thesis by blast
  qed
  from r(1) r(4) r(5) disj later show ?thesis by blast
qed

theorem Slice_AsSlice_independent_copy_witness:
  "Slice_AsSlice (\<lambda>c n. 1) (0::nat) [[1, 2, 3, 4, 5]] (Header 0 1 3 4)
     = Inr ([[1, 2, 3, 4, 5], [2, 3, 4, 0]], Header 1 0 3 4)
 \<and> hdr_value [[1, 2, 3, 4, 5], [2, 3, 4, 0 :: nat]] (Header 1 0 3 4) = Some [2, 3, 4]
 \<and> go_store [[1, 2, 3, 4, 5], [2, 3, 4, 0 :: nat]] (Header 1 0 3 4) 0 9
     = Inr [[1, 2, 3, 4, 5], [9, 3, 4, 0]]
 \<and> hdr_value [[1, 2, 3, 4, 5], [9, 3, 4, 0 :: nat]] (Header 0 1 3 4) = Some [2, 3, 4]"
proof -
  have v: "hdr_valid [[1, 2, 3, 4, 5 :: nat]] (Header 0 1 3 4)" by simp
  have a: "Slice_AsSlice (\<lambda>c n. 1) (0::nat) [[1, 2, 3, 4, 5]] (Header 0 1 3 4)
     = Inr ([[1, 2, 3, 4, 5], [2, 3, 4, 0]], Header 1 0 3 4)"
    by (simp add: Slice_AsSlice_def Slice_AppendTo_def go_append_def)
  have s: "go_store [[1, 2, 3, 4, 5], [2, 3, 4, 0 :: nat]] (Header 1 0 3 4) 0 9
     = Inr [[1, 2, 3, 4, 5], [9, 3, 4, 0]]"
    by (simp add: go_store_def)
  from Slice_AsSlice_independent_copy [OF v, of "\<lambda>c n. 1" 0]
  obtain M' r where r: "Slice_AsSlice (\<lambda>c n. 1) (0::nat) [[1, 2, 3, 4, 5]] (Header 0 1 3 4) = Inr (M', r)"
    "hdr_value M' r = hdr_value [[1, 2, 3, 4, 5 :: nat]] (Header 0 1 3 4)"
    "\<forall>i x. 0 \<le> i \<and> i < int (hdr_len r) \<longrightarrow>
       (\<exists>N N' r'. go_store M' r i x = Inr N
          \<and> hdr_value N (Header 0 1 3 4) = hdr_value [[1, 2, 3, 4, 5 :: nat]] (Header 0 1 3 4)
          \<and> Slice_AsSlice (\<lambda>c n. 1) 0 N (Header 0 1 3 4) = Inr (N', r')
          \<and> hdr_value N' r' = hdr_value [[1, 2, 3, 4, 5 :: nat]] (Header 0 1 3 4))"
    by blast
  from r(1) a have eq: "M' = [[1, 2, 3, 4, 5], [2, 3, 4, 0]]" "r = Header 1 0 3 4"
    by simp_all
  from r(2) eq have c: "hdr_value [[1, 2, 3, 4, 5], [2, 3, 4, 0 :: nat]] (Header 1 0 3 4) = Some [2, 3, 4]"
    by simp
  have "(0::int) \<le> 0 \<and> 0 < int (hdr_len r)"
    by (simp add: eq)
  with r(3) obtain N where N: "go_store M' r 0 9 = Inr N"
    "hdr_value N (Header 0 1 3 4) = hdr_value [[1, 2, 3, 4, 5 :: nat]] (Header 0 1 3 4)"
    by blast
  from N(1) s eq have "N = [[1, 2, 3, 4, 5], [9, 3, 4, 0]]"
    by simp
  with N(2) have "hdr_value [[1, 2, 3, 4, 5], [9, 3, 4, 0 :: nat]] (Header 0 1 3 4) = Some [2, 3, 4]"
    by simp
  with a c s show ?thesis by simp
qed

section \<open>Reading a map through a converting view\<close>

lemma go_lookup_absent:
  "k \<notin> fst ` set (go_map_entries M) \<Longrightarrow> go_lookup zero M k = (zero, False)"
  by (auto simp: go_lookup_def go_map_entries_def map_of_eq_None_iff [symmetric]
      split: option.splits)

text \<open>
  C7. \<open>MapFn.Get(k)\<close> is the conversion function applied to \<open>M[k]\<close>: to the value stored
  under \<open>k\<close> when there is one, and to the zero value of the value type when \<open>k\<close> is not a
  key of \<open>M\<close>; the function is applied in both cases.
\<close>

theorem MapFn_Get_applies_wrapv:
  "MapFn_Get zero (MapFnOf M f) k = f (fst (go_lookup zero M k))
 \<and> (\<forall>al t. M = Some al \<and> map_of al k = Some t \<longrightarrow> MapFn_Get zero (MapFnOf M f) k = f t)
 \<and> (k \<notin> fst ` set (go_map_entries M) \<longrightarrow> MapFn_Get zero (MapFnOf M f) k = f zero)"
  by (simp add: MapFn_Get_def MapFnOf_def go_lookup_absent) (simp add: go_lookup_def)

theorem MapFn_Get_applies_wrapv_witness:
  "MapFn_Get [] (MapFnOf (Some [(1::nat, ''a''), (2, ''bc'')]) length) 2 = 2
 \<and> MapFn_Get [] (MapFnOf (Some [(1::nat, ''a''), (2, ''bc'')]) length) 7 = 0
 \<and> MapFn_Get [] (MapFnOf (None :: (nat, string) gomap) (\<lambda>t. Suc (length t))) 7 = 1"
  using MapFn_Get_applies_wrapv [of "[]" "Some [(1::nat, ''a''), (2, ''bc'')]" length 2]
    MapFn_Get_applies_wrapv [of "[]" "Some [(1::nat, ''a''), (2, ''bc'')]" length 7]
    MapFn_Get_applies_wrapv [of "[]" "None :: (nat, string) gomap" "\<lambda>t. Suc (length t)" 7]
  by (simp add: go_map_entries_def go_lookup_def)

text \<open>
  C9. For a key that is not in the backing map, \<open>MapFn.GetOk(k)\<close> returns the conversion
  function applied to the zero value of the value type, together with \<open>false\<close>: the
  function runs although the key is missing.
\<close>

theorem MapFn_GetOk_absent:
  assumes "k \<notin> fst ` set (go_map_entries (MapFn_zh m))"
  shows "MapFn_GetOk zero m k = (wrapv m zero, False)"
  using assms by (simp add: MapFn_GetOk_def go_lookup_absent)

theorem MapFn_GetOk_absent_witness:
  "MapFn_GetOk [] (MapFnOf (Some [(1::nat, ''a''), (2, ''bc'')]) (\<lambda>t. Suc (length t))) 7
     = (1, False)"
proof -
  let ?m = "MapFnOf (Some [(1::nat, ''a''), (2, ''bc'')]) (\<lambda>t. Suc (length t))"
  have h: "7 \<notin> fst ` set (go_map_entries (MapFn_zh ?m))"
    by (simp add: go_map_entries_def MapFnOf_def)
  from MapFn_GetOk_absent [OF h, of "[]"] show ?thesis
    by (simp add: MapFnOf_def)
qed

section \<open>Stopping a Range\<close>

text \<open>
  C8. Take a map of at least two entries, any order of iteration over it, and a visitor
  that returns \<open>false\<close> when it is called first, whichever entry that is with. Then
  \<open>Map.Range\<close> calls the visitor once: the calls noted are a single entry of the map,
  the one the order puts first, and the visitor's variables are as that one call left them.
\<close>

theorem Map_Range_stops_after_first:
  assumes "iteration_order (Map_zh m) ord" and "2 \<le> Map_Len m"
    and "\<forall>(k, v) \<in> set (go_map_entries (Map_zh m)). \<not> fst (f k v s)"
  shows "\<exists>k v. Map_Range ord m (recording f) ([], s) = ([(k, v)], snd (f k v s))
           \<and> (k, v) = go_map_entries (Map_zh m) ! hd ord
           \<and> (k, v) \<in> set (go_map_entries (Map_zh m))
           \<and> length (fst (Map_Range ord m (recording f) ([], s))) = 1"
proof -
  from assms(2) obtain al where al: "Map_zh m = Some al" "2 \<le> length al"
    by (auto simp: Map_Len_def go_map_len_def split: option.splits)
  with assms(1) have ord_set: "set ord = {0..<length al}"
    by (simp add: iteration_order_def)
  with al(2) have "ord \<noteq> []" by auto
  then obtain i rest where ord: "ord = i # rest" by (cases ord) auto
  with ord_set have i: "i < length al" by auto
  obtain k v where kv: "al ! i = (k, v)" by (cases "al ! i") auto
  with i have mem: "(k, v) \<in> set al" by (metis nth_mem)
  obtain c s' where f: "f k v s = (c, s')" by (cases "f k v s") auto
  from assms(3) al(1) mem have "\<not> fst (f k v s)"
    by (auto simp: go_map_entries_def)
  with f have "\<not> c" by simp
  with f have "Map_Range ord m (recording f) ([], s) = ([(k, v)], snd (f k v s))"
    by (simp add: Map_Range_def al ord kv recording_def)
  with mem kv show ?thesis
    by (auto simp: go_map_entries_def al ord)
qed

theorem Map_Range_stops_after_first_witness:
  "Map_Range [2, 0, 1] (MapOf (Some [(1::nat, True), (2, False), (3, True)]))
     (recording (\<lambda>k v n. (False, n + (1::nat)))) ([], 0) = ([(3, True)], 1)"
proof -
  let ?m = "MapOf (Some [(1::nat, True), (2, False), (3, True)])"
  have o: "iteration_order (Map_zh ?m) [2, 0, 1]"
    by code_simp
  have l: "2 \<le> Map_Len ?m"
    by (simp add: Map_Len_def go_map_len_def MapOf_def)
  from Map_Range_stops_after_first [of ?m "[2, 0, 1]" "\<lambda>k v n. (False, n + (1::nat))" 0] o l
  show ?thesis
    by (simp add: Map_Range_def MapOf_def recording_def go_map_entries_def)
qed

end
